theory Spec2Isabelle
  imports Main
begin

section \<open>The useFetch hook of src/index.js as an event-driven state machine\<close>

text \<open>
  The hook keeps React state (\<open>url\<close>, \<open>data\<close>, \<open>loading\<close>, \<open>error\<close>, \<open>page\<close>) and three
  refs (\<open>cacheRef\<close>, \<open>cancelRequestRef\<close>, \<open>batchedRequestsRef\<close>). Its asynchronous function
  \<open>fetchData\<close> suspends once, at \<open>await axios(...)\<close>. The embedding therefore splits it
  into the part that runs up to the await (\<open>fetchData\<close>) and the part that runs when the
  request settles (\<open>fetchData_settled\<close>: the rest of \<open>try\<close>, the \<open>catch\<close> and the
  \<open>finally\<close>). Requests in flight and timers set by \<open>setTimeout\<close> are kept in the state,
  and an event says which of them completes next.

  What the embedding takes from React and axios rather than from the file: state set in a
  handler or a continuation is in place when the next event runs; the effect is cleaned up
  and run again when one of its dependencies has changed, and the options are the same
  objects on every render, so that this happens exactly when \<open>url\<close> has changed; a
  request whose signal is aborted rejects with an axios error. React's handling of a
  component that is unmounted is not part of the embedding.
\<close>

subsection \<open>Values\<close>

text \<open>JavaScript values as far as the hook looks at them: JSON data plus \<open>undefined\<close>.\<close>

datatype val =
    Undefined
  | Null
  | Bool bool
  | Num int
  | Str string
  | Arr "val list"
  | Obj "(string \<times> val) list"

text \<open>Truthiness, as used by \<open>cache && cacheRef.current[url]\<close> and by \<open>x || default\<close>.\<close>

fun truthy :: "val \<Rightarrow> bool" where
  "truthy Undefined = False"
| "truthy Null = False"
| "truthy (Bool b) = b"
| "truthy (Num n) = (n \<noteq> 0)"
| "truthy (Str s) = (s \<noteq> [])"
| "truthy (Arr xs) = True"
| "truthy (Obj kvs) = True"

text \<open>
  What \<open>await axios(...)\<close> can throw. \<open>AxiosError response code\<close> is an error for which
  \<open>axios.isAxiosError\<close> holds: \<open>response\<close> is \<open>error.response\<close> as (status, data) when
  the server answered, \<open>code\<close> is \<open>error.code\<close>. \<open>OtherError message\<close> is any other
  thrown value, of which the hook reads \<open>error.message\<close>; an exception raised by
  \<open>transformData\<close> or \<open>onBatchedResponse\<close> inside the \<open>try\<close> block is one of these.
\<close>

datatype thrown =
    AxiosError "(int \<times> val) option" "string option"
  | OtherError string

datatype outcome =
    Success val
  | Failure thrown

text \<open>
  The outcome classes of the specification, as axios delivers them: a response with a
  non-2xx status, no response at all, and the rejection of a request whose
  \<open>AbortController\<close> signal is aborted (axios rejects it with \<open>CanceledError\<close>, a
  subclass of \<open>AxiosError\<close> with code \<open>ERR_CANCELED\<close> and no response).
\<close>

definition HttpError :: "int \<Rightarrow> val \<Rightarrow> string option \<Rightarrow> outcome" where
  "HttpError st body code = Failure (AxiosError (Some (st, body)) code)"

definition NetworkError :: "string option \<Rightarrow> outcome" where
  "NetworkError code = Failure (AxiosError None code)"

definition Cancelled :: outcome where
  "Cancelled = Failure (AxiosError None (Some ''ERR_CANCELED''))"

subsection \<open>Configuration and state\<close>

text \<open>
  The options destructured at the top of \<open>useFetch\<close>. \<open>method\<close>, \<open>headers\<close>, \<open>body\<close> and
  \<open>timeout\<close> are only handed to axios and are left out. \<open>transformData\<close> and
  \<open>onBatchedResponse\<close> may throw (\<open>Inl message\<close>). \<open>onPageChange\<close> and
  \<open>onAuthenticationError\<close> say whether the callback was given; their calls are logged in
  the state, and they return normally.
\<close>

record config =
  transformData :: "val \<Rightarrow> string + val"
  retries :: int
  retryDelay :: int
  cache :: bool
  pollInterval :: "int option"
  batchSize :: int
  onPageChange :: bool
  onBatchedResponse :: "(val list \<Rightarrow> string + val) option"
  onAuthenticationError :: bool

text \<open>The object passed to \<open>setError\<close>: \<open>{message, status, type}\<close>.\<close>

record error_state =
  message :: val
  status :: "int option"
  type :: "string option"

text \<open>
  One call of \<open>fetchData\<close>: the \<open>url\<close> of the closure it belongs to, the
  \<open>AbortController\<close> it was given and its \<open>retryCount\<close>.
\<close>

type_synonym attempt = "string \<times> nat \<times> nat"

record hook =
  url :: string
  data :: val
  loading :: bool
  error :: "error_state option"
  page :: int
  cacheRef :: "string \<rightharpoonup> val"
  cancelRequestRef :: "bool option"
  batchedRequestsRef :: "val list"
  controller :: nat
  intervalId :: "nat option"
  nextController :: nat
  aborted :: "nat list"
  inflight :: "attempt list"
  timers :: "(int \<times> attempt) list"
  requests :: "attempt list"
  delays :: "int list"
  authCalls :: nat
  pageCalls :: "int list"

text \<open>
  \<open>controller\<close> is the \<open>abortController\<close> of the effect that ran last, \<open>intervalId\<close> the
  controller that effect's polling interval calls \<open>fetchData\<close> with, \<open>aborted\<close> the
  controllers whose signal is aborted, \<open>cancelRequestRef\<close> the cancel token source with
  its cancelled flag (no request is ever given this token). \<open>inflight\<close> holds the calls
  of axios that have not settled, \<open>timers\<close> the pending \<open>setTimeout\<close> callbacks with
  their delay. \<open>requests\<close>, \<open>delays\<close>, \<open>authCalls\<close> and \<open>pageCalls\<close> only record what
  happened: every call of axios, every delay given to \<open>setTimeout\<close>, the number of calls
  of \<open>onAuthenticationError\<close> and the arguments of the calls of \<open>onPageChange\<close>.
\<close>

text \<open>
  \<open>cacheRef.current[url]\<close>: \<open>undefined\<close> for a key that was never written. The store is
  the object's own properties; names that a JavaScript object inherits (\<open>constructor\<close>,
  \<open>toString\<close>, ...) are not locators here.
\<close>

definition getprop :: "(string \<rightharpoonup> val) \<Rightarrow> string \<Rightarrow> val" where
  "getprop m k = (case m k of None \<Rightarrow> Undefined | Some v \<Rightarrow> v)"

subsection \<open>fetchData\<close>

text \<open>Lines 32-50: up to the call of axios.\<close>

definition fetchData :: "config \<Rightarrow> string \<Rightarrow> nat \<Rightarrow> nat \<Rightarrow> hook \<Rightarrow> hook" where
  "fetchData cfg u c retryCount st =
     (let st1 = st\<lparr>loading := True, error := None\<rparr> in
      if cache cfg \<and> truthy (getprop (cacheRef st1) u)
      then st1\<lparr>data := getprop (cacheRef st1) u, loading := False\<rparr>
      else st1\<lparr>inflight := inflight st1 @ [(u, c, retryCount)],
               requests := requests st1 @ [(u, c, retryCount)]\<rparr>)"

text \<open>Lines 72-92: the \<open>catch\<close> block.\<close>

definition catch_block :: "config \<Rightarrow> attempt \<Rightarrow> thrown \<Rightarrow> hook \<Rightarrow> hook" where
  "catch_block cfg a e st =
     (case a of (u, c, retryCount) \<Rightarrow>
      (case e of
         AxiosError response code \<Rightarrow>
           (let st1 = (if map_option fst response = Some 401 \<and> onAuthenticationError cfg
                       then st\<lparr>authCalls := authCalls st + 1\<rparr> else st) in
            if int retryCount < retries cfg
            then st1\<lparr>timers := timers st1 @ [(retryDelay cfg * (int retryCount + 1), (u, c, retryCount + 1))],
                     delays := delays st1 @ [retryDelay cfg * (int retryCount + 1)]\<rparr>
            else if c \<notin> set (aborted st1)
            then st1\<lparr>error := Some \<lparr>
                   message = (case response of
                                None \<Rightarrow> Str ''An unknown error occurred''
                              | Some (s, d) \<Rightarrow> if truthy d then d else Str ''An unknown error occurred''),
                   status = map_option fst response,
                   type = code\<rparr>\<rparr>
            else st1)
       | OtherError msg \<Rightarrow>
           st\<lparr>error := Some \<lparr>message = Str msg, status = None, type = Some ''general''\<rparr>\<rparr>))"

text \<open>Lines 52-71: the rest of the \<open>try\<close> block, run when axios has resolved.\<close>

definition try_block :: "config \<Rightarrow> attempt \<Rightarrow> val \<Rightarrow> hook \<Rightarrow> hook" where
  "try_block cfg a responseData st =
     (case a of (u, c, retryCount) \<Rightarrow>
      (case transformData cfg responseData of
         Inl msg \<Rightarrow> catch_block cfg a (OtherError msg) st
       | Inr transformedData \<Rightarrow>
           if batchSize cfg = 1
           then (let st1 = st\<lparr>data := transformedData\<rparr>;
                     st2 = (if cache cfg
                            then st1\<lparr>cacheRef := (cacheRef st1)(u \<mapsto> transformedData)\<rparr>
                            else st1)
                 in st2\<lparr>error := None\<rparr>)
           else (let st1 = st\<lparr>batchedRequestsRef := batchedRequestsRef st @ [transformedData]\<rparr> in
                 if int (length (batchedRequestsRef st1)) \<ge> batchSize cfg
                 then (case (case onBatchedResponse cfg of
                               None \<Rightarrow> Inr (Arr (batchedRequestsRef st1))
                             | Some f \<Rightarrow> f (batchedRequestsRef st1)) of
                         Inl msg \<Rightarrow> catch_block cfg a (OtherError msg) st1
                       | Inr batchedResponse \<Rightarrow>
                           st1\<lparr>data := batchedResponse, batchedRequestsRef := [], error := None\<rparr>)
                 else st1\<lparr>error := None\<rparr>)))"

text \<open>Lines 93-97: the \<open>finally\<close> block.\<close>

definition finally_block :: "attempt \<Rightarrow> hook \<Rightarrow> hook" where
  "finally_block a st =
     (case a of (u, c, retryCount) \<Rightarrow> if retryCount = 0 then st\<lparr>loading := False\<rparr> else st)"

text \<open>Everything after the await, for the outcome the request settled with.\<close>

definition fetchData_settled :: "config \<Rightarrow> attempt \<Rightarrow> outcome \<Rightarrow> hook \<Rightarrow> hook" where
  "fetchData_settled cfg a oc st =
     finally_block a
       (case oc of
          Success responseData \<Rightarrow> try_block cfg a responseData st
        | Failure e \<Rightarrow> catch_block cfg a e st)"

subsection \<open>useEffect\<close>

text \<open>Lines 113-121: the cleanup function returned by the effect.\<close>

definition useEffect_cleanup :: "hook \<Rightarrow> hook" where
  "useEffect_cleanup st =
     st\<lparr>aborted := controller st # aborted st,
        cancelRequestRef := map_option (\<lambda>_. True) (cancelRequestRef st),
        intervalId := None\<rparr>"

text \<open>
  Lines 103-111: the effect. The previous cancel token source is cancelled and replaced by
  a new one, a new \<open>AbortController\<close> is made, and \<open>fetchData\<close> is called with it and
  the default \<open>retryCount = 0\<close>. The interval is set when \<open>pollInterval\<close> is truthy, that
  is neither \<open>null\<close> nor 0.
\<close>

definition useEffect :: "config \<Rightarrow> hook \<Rightarrow> hook" where
  "useEffect cfg st =
     (let c = nextController st;
          st1 = st\<lparr>cancelRequestRef := Some False, controller := c, nextController := c + 1\<rparr>;
          st2 = fetchData cfg (url st1) c 0 st1
      in st2\<lparr>intervalId := (case pollInterval cfg of
                               None \<Rightarrow> None
                             | Some ms \<Rightarrow> if ms \<noteq> 0 then Some c else None)\<rparr>)"

text \<open>
  After a handler has changed state React renders again; the effect's dependencies are
  \<open>fetchData\<close>, \<open>url\<close> and \<open>pollInterval\<close>, so with unchanged options the old effect is
  cleaned up and the effect runs again exactly when \<open>url\<close> has changed.
\<close>

definition rerender :: "config \<Rightarrow> string \<Rightarrow> hook \<Rightarrow> hook" where
  "rerender cfg old_url st =
     (if url st = old_url then st else useEffect cfg (useEffect_cleanup st))"

text \<open>Lines 21-29 and the first run of the effect: the hook after mounting.\<close>

definition initial :: "string \<Rightarrow> hook" where
  "initial initialUrl =
     \<lparr>url = initialUrl, data = Null, loading = True, error = None, page = 1,
      cacheRef = Map.empty, cancelRequestRef = None, batchedRequestsRef = [],
      controller = 0, intervalId = None, nextController = 0, aborted = [],
      inflight = [], timers = [], requests = [], delays = [], authCalls = 0, pageCalls = []\<rparr>"

definition mount :: "config \<Rightarrow> string \<Rightarrow> hook" where
  "mount cfg initialUrl = useEffect cfg (initial initialUrl)"

subsection \<open>Pagination\<close>

text \<open>
  The template literal \<open>${pageNumber}\<close> for an integer: its decimal numeral, with a
  minus sign when negative (JavaScript writes numbers from \<open>1e21\<close> on with an exponent;
  page numbers are taken to be smaller).
\<close>

function digits :: "nat \<Rightarrow> string" where
  "digits n = (if n < 10 then [''0123456789'' ! n]
               else digits (n div 10) @ [''0123456789'' ! (n mod 10)])"
  by pat_completeness auto
termination
  by (relation "measure id") auto

declare digits.simps [simp del]

definition show_int :: "int \<Rightarrow> string" where
  "show_int i = (if i < 0 then CHR ''-'' # digits (nat (- i)) else digits (nat i))"

text \<open>Lines 124-132.\<close>

definition fetchPage :: "config \<Rightarrow> int \<Rightarrow> hook \<Rightarrow> hook" where
  "fetchPage cfg pageNumber st =
     (let nextPageUrl = url st @ ''?page='' @ show_int pageNumber;
          st1 = st\<lparr>url := nextPageUrl, page := pageNumber\<rparr>;
          st2 = (if onPageChange cfg then st1\<lparr>pageCalls := pageCalls st1 @ [pageNumber]\<rparr> else st1)
      in rerender cfg (url st) st2)"

text \<open>Lines 134-137.\<close>

definition fetchMore :: "config \<Rightarrow> hook \<Rightarrow> hook" where
  "fetchMore cfg st = (let nextPageNumber = page st + 1 in fetchPage cfg nextPageNumber st)"

subsection \<open>Events\<close>

text \<open>
  What can happen to a mounted hook: the \<open>i\<close>-th request in flight settles with an
  outcome, the \<open>i\<close>-th pending retry timer fires, the polling interval ticks, or the
  component calls \<open>fetchPage\<close> or \<open>fetchMore\<close>.
\<close>

datatype event =
    Resolve nat outcome
  | Fire nat
  | Tick
  | FetchPage int
  | FetchMore

definition remove_nth :: "nat \<Rightarrow> 'a list \<Rightarrow> 'a list" where
  "remove_nth i xs = take i xs @ drop (Suc i) xs"

fun step :: "config \<Rightarrow> event \<Rightarrow> hook \<Rightarrow> hook" where
  "step cfg (Resolve i oc) st =
     (if i < length (inflight st)
      then fetchData_settled cfg (inflight st ! i) oc (st\<lparr>inflight := remove_nth i (inflight st)\<rparr>)
      else st)"
| "step cfg (Fire i) st =
     (if i < length (timers st)
      then (case snd (timers st ! i) of (u, c, retryCount) \<Rightarrow>
              fetchData cfg u c retryCount (st\<lparr>timers := remove_nth i (timers st)\<rparr>))
      else st)"
| "step cfg Tick st =
     (case intervalId st of
        None \<Rightarrow> st
      | Some c \<Rightarrow> fetchData cfg (url st) c 0 st)"
| "step cfg (FetchPage n) st = fetchPage cfg n st"
| "step cfg FetchMore st = fetchMore cfg st"

fun run :: "config \<Rightarrow> event list \<Rightarrow> hook \<Rightarrow> hook" where
  "run cfg [] st = st"
| "run cfg (ev # evs) st = run cfg evs (step cfg ev st)"

subsection \<open>Complete fetches and example configurations\<close>

text \<open>
  A call of \<open>fetchData\<close> whose request settles before anything else happens. When the
  call returned from the cache no request was made and there is nothing to settle.
\<close>

definition fetch :: "config \<Rightarrow> attempt \<Rightarrow> outcome \<Rightarrow> hook \<Rightarrow> hook" where
  "fetch cfg a oc st =
     (case a of (u, c, retryCount) \<Rightarrow>
        (let st1 = fetchData cfg u c retryCount st in
         if length (inflight st1) = Suc (length (inflight st))
         then step cfg (Resolve (length (inflight st)) oc) st1
         else st1))"

fun fetches :: "config \<Rightarrow> (attempt \<times> val) list \<Rightarrow> hook \<Rightarrow> hook" where
  "fetches cfg [] st = st"
| "fetches cfg ((a, responseData) # xs) st = fetches cfg xs (fetch cfg a (Success responseData) st)"

text \<open>
  The events of a cycle in which every attempt fails with the same error and \<open>n\<close>
  retries follow the first attempt: each failure but the last is followed by its retry
  timer firing.
\<close>

fun failing_cycle :: "nat \<Rightarrow> thrown \<Rightarrow> event list" where
  "failing_cycle 0 e = [Resolve 0 (Failure e)]"
| "failing_cycle (Suc n) e = Resolve 0 (Failure e) # Fire 0 # failing_cycle n e"

text \<open>
  One retry, no cache, no batching; the transform reads a property of the response, so
  it throws on \<open>null\<close>.
\<close>

definition strict_config :: config where
  "strict_config =
     \<lparr>transformData = (\<lambda>v. if v = Null then Inl ''Cannot read properties of null'' else Inr v),
      retries = 1, retryDelay = 1000, cache = False, pollInterval = None, batchSize = 1,
      onPageChange = False, onBatchedResponse = None, onAuthenticationError = False\<rparr>"

text \<open>
  Two retries 100 ms apart, as in the example of the specification.
\<close>

definition retry_config :: config where
  "retry_config =
     \<lparr>transformData = Inr, retries = 2, retryDelay = 100, cache = False, pollInterval = None,
      batchSize = 1, onPageChange = False, onBatchedResponse = None,
      onAuthenticationError = False\<rparr>"

text \<open>Cache and polling every five seconds; then the same with batches of two.\<close>

definition polling_cache_config :: config where
  "polling_cache_config =
     \<lparr>transformData = Inr, retries = 0, retryDelay = 1000, cache = True,
      pollInterval = Some 5000, batchSize = 1, onPageChange = True, onBatchedResponse = None,
      onAuthenticationError = True\<rparr>"

definition batch_config :: config where
  "batch_config = polling_cache_config\<lparr>batchSize := 2\<rparr>"

text \<open>The defaults of \<open>useFetch\<close>, with \<open>onPageChange\<close> given.\<close>

definition paging_config :: config where
  "paging_config =
     \<lparr>transformData = Inr, retries = 0, retryDelay = 1000, cache = False, pollInterval = None,
      batchSize = 1, onPageChange = True, onBatchedResponse = None,
      onAuthenticationError = False\<rparr>"

subsection \<open>An invariant of the locators\<close>

text \<open>
  Pagination only ever appends to \<open>url\<close>, so no key of the cache and no locator of a
  pending attempt or timer is longer than the current \<open>url\<close>.
\<close>

definition urls_bounded :: "hook \<Rightarrow> bool" where
  "urls_bounded st =
     ((\<forall>k \<in> dom (cacheRef st). length k \<le> length (url st))
      \<and> (\<forall>a \<in> set (inflight st). length (fst a) \<le> length (url st))
      \<and> (\<forall>t \<in> set (timers st). length (fst (snd t)) \<le> length (url st)))"

section \<open>Properties\<close>

declare step.simps [simp del]

lemmas hook_defs = mount_def initial_def useEffect_def useEffect_cleanup_def rerender_def
  fetchData_def fetchData_settled_def catch_block_def try_block_def finally_block_def
  fetchPage_def fetchMore_def remove_nth_def getprop_def HttpError_def NetworkError_def
  Cancelled_def show_int_def digits.simps fetch_def step.simps Let_def

lemma remove_nth_last: "remove_nth (length xs) (xs @ [a]) = xs"
  by (simp add: remove_nth_def)

lemma set_remove_nth: "set (remove_nth i xs) \<subseteq> set xs"
  unfolding remove_nth_def using set_take_subset [of i xs] set_drop_subset [of "Suc i" xs]
  by auto

text \<open>A call of \<open>fetchData\<close> that misses the cache, with its request settled at once.\<close>

lemma fetch_miss:
  assumes "\<not> truthy (getprop (cacheRef st) u)"
  shows "fetch cfg (u, c, rc) oc st
         = fetchData_settled cfg (u, c, rc) oc
             (st\<lparr>loading := True, error := None, requests := requests st @ [(u, c, rc)]\<rparr>)"
  using assms
  by (simp add: fetch_def fetchData_def Let_def step.simps remove_nth_last)

subsection \<open>Supersession\<close>

text \<open>
  C1. The claim: once the locator has changed, every pending completion of the
  superseded cycle is discarded and the visible state shows only the new locator's
  outcome. The code does not do this. In the run below the hook is mounted on
  \<open>/items\<close> with one retry and \<open>fetchPage(2)\<close> is called while the first request is in
  flight. The cleanup aborts that request, which rejects with the cancellation error;
  the \<open>catch\<close> block schedules its retry without looking at the signal. The request
  for \<open>/items?page=2\<close> then answers \<open>null\<close>, the transform throws, and \<open>error\<close> holds
  that failure. When the retry timer of the superseded cycle fires, \<open>fetchData\<close> runs
  for \<open>/items\<close> again: it sets \<open>error\<close> to \<open>null\<close> and \<open>loading\<close> to \<open>true\<close> and calls
  axios once more. In the end nothing is pending, the failure of \<open>/items?page=2\<close> is no
  longer visible, and \<open>loading\<close> stays \<open>true\<close>.
\<close>

theorem superseded_cycle_mutates_state:
  "error (run strict_config [FetchPage 2, Resolve 0 Cancelled, Resolve 0 (Success Null)]
            (mount strict_config ''/items''))
     = Some \<lparr>message = Str ''Cannot read properties of null'', status = None,
             type = Some ''general''\<rparr>
   \<and> (let st = run strict_config
                  [FetchPage 2, Resolve 0 Cancelled, Resolve 0 (Success Null), Fire 0,
                   Resolve 0 Cancelled]
                  (mount strict_config ''/items'')
      in url st = ''/items?page=2'' \<and> error st = None \<and> loading st = True \<and> data st = Null
         \<and> inflight st = [] \<and> timers st = []
         \<and> requests st = [(''/items'', 0, 0), (''/items?page=2'', 1, 0), (''/items'', 0, 1)])"
  by (simp add: strict_config_def hook_defs)

subsection \<open>Loading\<close>

text \<open>
  C3. The claim: \<open>loading\<close> is true exactly while the first attempt of a cycle is
  outstanding, and no retry raises it again. In the code every call of \<open>fetchData\<close>
  starts with \<open>setLoading(true)\<close>, whatever its \<open>retryCount\<close>, and the \<open>finally\<close> block
  lowers it only for \<open>retryCount = 0\<close>: the start of a retry raises \<open>loading\<close> unless
  the cache answers, and no outcome of a retry changes it. With one retry: the first
  attempt fails and \<open>loading\<close> becomes false; the retry starts and \<open>loading\<close> is true
  again; the retry succeeds, nothing is pending, and \<open>loading\<close> is still true.
\<close>

theorem retry_raises_loading:
  "loading (fetchData cfg u c (Suc k) st) = (\<not> (cache cfg \<and> truthy (getprop (cacheRef st) u)))
   \<and> loading (fetchData_settled cfg (u, c, Suc k) oc st) = loading st
   \<and> loading (run strict_config [Resolve 0 (NetworkError (Some ''ERR_NETWORK''))]
              (mount strict_config ''/items'')) = False
   \<and> loading (run strict_config [Resolve 0 (NetworkError (Some ''ERR_NETWORK'')), Fire 0]
                (mount strict_config ''/items'')) = True
   \<and> (let st = run strict_config
                  [Resolve 0 (NetworkError (Some ''ERR_NETWORK'')), Fire 0,
                   Resolve 0 (Success (Num 1))]
                  (mount strict_config ''/items'')
      in loading st = True \<and> data st = Num 1 \<and> error st = None
         \<and> inflight st = [] \<and> timers st = [])"
proof -
  have a: "loading (fetchData cfg u c (Suc k) st)
             = (\<not> (cache cfg \<and> truthy (getprop (cacheRef st) u)))"
    by (simp add: fetchData_def Let_def)
  have c1: "loading (catch_block cfg (u, c, Suc k) e s) = loading s" for e s
    by (cases e) (simp_all add: catch_block_def Let_def)
  have t1: "loading (try_block cfg (u, c, Suc k) r st) = loading st" for r
    by (simp add: try_block_def Let_def c1 split: sum.splits option.splits)
  have b: "loading (fetchData_settled cfg (u, c, Suc k) oc st) = loading st"
    by (cases oc) (simp_all add: fetchData_settled_def finally_block_def c1 t1)
  have c: "loading (run strict_config [Resolve 0 (NetworkError (Some ''ERR_NETWORK''))]
              (mount strict_config ''/items'')) = False
   \<and> loading (run strict_config [Resolve 0 (NetworkError (Some ''ERR_NETWORK'')), Fire 0]
                (mount strict_config ''/items'')) = True
   \<and> (let st = run strict_config
                  [Resolve 0 (NetworkError (Some ''ERR_NETWORK'')), Fire 0,
                   Resolve 0 (Success (Num 1))]
                  (mount strict_config ''/items'')
      in loading st = True \<and> data st = Num 1 \<and> error st = None
         \<and> inflight st = [] \<and> timers st = [])"
    by (simp add: strict_config_def hook_defs)
  show ?thesis using a b c by blast
qed

subsection \<open>Retry eligibility\<close>

text \<open>
  C6. The claim: a successful attempt is never retried, and a cancelled attempt is never
  retried. The first holds: a response never sets a timer, whatever happens to it. The
  second does not. In the code the \<open>catch\<close> block tests \<open>retryCount < retries\<close> before it
  looks at \<open>abortController.signal.aborted\<close>, so the rejection of an aborted request
  schedules a retry like any other axios error: for every attempt and state the timer
  list grows when \<open>retryCount < retries\<close>. The last part is the concrete case: after
  \<open>fetchPage(2)\<close> the first request belongs to the aborted controller 0, and when it
  settles as cancelled its retry is scheduled with delay 1000.
\<close>

theorem cancelled_outcome_is_retried:
  "timers (fetchData_settled cfg (u, c, retryCount) (Success r) st) = timers st
   \<and> timers (fetchData_settled cfg (u, c, retryCount) Cancelled st)
     = (if int retryCount < retries cfg
        then timers st @ [(retryDelay cfg * (int retryCount + 1), (u, c, retryCount + 1))]
        else timers st)
   \<and> (let st = fetchPage strict_config 2 (mount strict_config ''/items'')
      in inflight st ! 0 = (''/items'', 0, 0) \<and> 0 \<in> set (aborted st) \<and> timers st = []
         \<and> timers (step strict_config (Resolve 0 Cancelled) st) = [(1000, (''/items'', 0, 1))])"
proof -
  have a: "timers (fetchData_settled cfg (u, c, retryCount) (Success r) st) = timers st"
    by (simp add: fetchData_settled_def finally_block_def try_block_def catch_block_def Let_def
        split: sum.splits option.splits)
  have b: "timers (fetchData_settled cfg (u, c, retryCount) Cancelled st)
     = (if int retryCount < retries cfg
        then timers st @ [(retryDelay cfg * (int retryCount + 1), (u, c, retryCount + 1))]
        else timers st)"
    by (simp add: fetchData_settled_def finally_block_def catch_block_def Cancelled_def Let_def)
  have c: "(let st = fetchPage strict_config 2 (mount strict_config ''/items'')
      in inflight st ! 0 = (''/items'', 0, 0) \<and> 0 \<in> set (aborted st) \<and> timers st = []
         \<and> timers (step strict_config (Resolve 0 Cancelled) st) = [(1000, (''/items'', 0, 1))])"
    by (simp add: strict_config_def hook_defs)
  show ?thesis using a b c by blast
qed

subsection \<open>Authentication errors\<close>

text \<open>
  C7. An attempt that fails with HTTP status 401 calls \<open>onAuthenticationError\<close> once
  when the callback is given: the count of its calls grows by exactly one, for every
  attempt, configuration and state, hence whether or not a retry follows. For axios
  errors in general the callback is called exactly for status 401, and starting an
  attempt never calls it.
\<close>

theorem onAuthenticationError_once:
  "authCalls (fetchData_settled cfg (u, c, retryCount) (HttpError 401 body code) st)
     = (if onAuthenticationError cfg then authCalls st + 1 else authCalls st)
   \<and> authCalls (fetchData_settled cfg (u, c, retryCount) (Failure (AxiosError response code)) st)
     = (if map_option fst response = Some 401 \<and> onAuthenticationError cfg
        then authCalls st + 1 else authCalls st)
   \<and> authCalls (fetchData cfg u c retryCount st) = authCalls st"
  by (simp add: fetchData_settled_def catch_block_def finally_block_def HttpError_def
      fetchData_def Let_def)

subsection \<open>Retries of a persistently failing request\<close>

text \<open>A failed attempt that has retries left, followed by its retry timer.\<close>

lemma fail_then_fire:
  assumes "inflight st = [(u, c, rc)]" "timers st = []" "int rc < retries cfg"
    and "\<not> (cache cfg \<and> truthy (getprop (cacheRef st) u))"
  shows "step cfg (Fire 0) (step cfg (Resolve 0 (Failure (AxiosError response code))) st)
         = (step cfg (Resolve 0 (Failure (AxiosError response code))) st)
             \<lparr>loading := True, error := None, timers := [],
              inflight := [(u, c, Suc rc)],
              requests := requests st @ [(u, c, Suc rc)]\<rparr>"
    and "error (step cfg (Resolve 0 (Failure (AxiosError response code))) st) = error st"
    and "requests (step cfg (Resolve 0 (Failure (AxiosError response code))) st) = requests st"
    and "delays (step cfg (Resolve 0 (Failure (AxiosError response code))) st)
           = delays st @ [retryDelay cfg * (int rc + 1)]"
    and "aborted (step cfg (Resolve 0 (Failure (AxiosError response code))) st) = aborted st"
    and "cacheRef (step cfg (Resolve 0 (Failure (AxiosError response code))) st) = cacheRef st"
  using assms
  by (auto simp add: fetchData_settled_def catch_block_def finally_block_def fetchData_def
      remove_nth_def Let_def step.simps)

text \<open>A failed attempt that has no retries left, in a cycle that was not aborted.\<close>

lemma last_failure:
  assumes "inflight st = [(u, c, rc)]" "\<not> int rc < retries cfg" "c \<notin> set (aborted st)"
  shows "error (step cfg (Resolve 0 (Failure (AxiosError response code))) st)
           = Some \<lparr>message = (case response of
                                None \<Rightarrow> Str ''An unknown error occurred''
                              | Some (s, d) \<Rightarrow>
                                  if truthy d then d else Str ''An unknown error occurred''),
                   status = map_option fst response, type = code\<rparr>"
    and "requests (step cfg (Resolve 0 (Failure (AxiosError response code))) st) = requests st"
    and "delays (step cfg (Resolve 0 (Failure (AxiosError response code))) st) = delays st"
    and "timers (step cfg (Resolve 0 (Failure (AxiosError response code))) st) = timers st"
    and "inflight (step cfg (Resolve 0 (Failure (AxiosError response code))) st) = []"
  using assms
  by (simp_all add: fetchData_settled_def catch_block_def finally_block_def remove_nth_def
      Let_def step.simps)

lemma length_failing_cycle: "length (failing_cycle n e) = 2 * n + 1"
  by (induction n) simp_all

text \<open>
  The cycle from attempt \<open>rc\<close> on, with \<open>n\<close> retries left: induction on \<open>n\<close>, the
  state and the retry count generalised.
\<close>

lemma failing_cycle_from:
  assumes "inflight st = [(u, c, rc)]" "timers st = []" "retries cfg = int (rc + n)"
    and "c \<notin> set (aborted st)" "\<not> (cache cfg \<and> truthy (getprop (cacheRef st) u))"
    and "error st = None"
  shows "requests (run cfg (failing_cycle n (AxiosError response code)) st)
           = requests st @ map (\<lambda>k. (u, c, k)) [Suc rc ..< Suc (rc + n)]
       \<and> delays (run cfg (failing_cycle n (AxiosError response code)) st)
           = delays st @ map (\<lambda>k. retryDelay cfg * int k) [Suc rc ..< Suc (rc + n)]
       \<and> error (run cfg (failing_cycle n (AxiosError response code)) st)
           = Some \<lparr>message = (case response of
                                None \<Rightarrow> Str ''An unknown error occurred''
                              | Some (s, d) \<Rightarrow>
                                  if truthy d then d else Str ''An unknown error occurred''),
                   status = map_option fst response, type = code\<rparr>
       \<and> inflight (run cfg (failing_cycle n (AxiosError response code)) st) = []
       \<and> timers (run cfg (failing_cycle n (AxiosError response code)) st) = []
       \<and> (\<forall>k < length (failing_cycle n (AxiosError response code)).
            error (run cfg (take k (failing_cycle n (AxiosError response code))) st) = None)"
  using assms
proof (induction n arbitrary: rc st)
  case 0
  have nr: "\<not> int rc < retries cfg" using "0.prems"(3) by simp
  note lf = last_failure [OF "0.prems"(1) nr "0.prems"(4), of response code]
  show ?case using lf "0.prems"(2,6) by simp
next
  case (Suc n)
  let ?e = "AxiosError response code"
  let ?s1 = "step cfg (Resolve 0 (Failure ?e)) st"
  let ?s2 = "step cfg (Fire 0) ?s1"
  have lt: "int rc < retries cfg" using Suc.prems(3) by simp
  note ff = fail_then_fire [OF Suc.prems(1) Suc.prems(2) lt Suc.prems(5), of response code]
  have s2: "?s2 = ?s1\<lparr>loading := True, error := None, timers := [],
              inflight := [(u, c, Suc rc)], requests := requests st @ [(u, c, Suc rc)]\<rparr>"
    by (rule ff(1))
  have p1: "inflight ?s2 = [(u, c, Suc rc)]" unfolding s2 by simp
  have p2: "timers ?s2 = []" unfolding s2 by simp
  have p3: "retries cfg = int (Suc rc + n)" using Suc.prems(3) by simp
  have p4: "c \<notin> set (aborted ?s2)" unfolding s2 using Suc.prems(4) by (simp add: ff(5))
  have p5: "\<not> (cache cfg \<and> truthy (getprop (cacheRef ?s2) u))"
    unfolding s2 using Suc.prems(5) by (simp add: ff(6))
  have p6: "error ?s2 = None" unfolding s2 by simp
  note ih = Suc.IH [OF p1 p2 p3 p4 p5 p6]
  have unf: "run cfg (failing_cycle (Suc n) ?e) st = run cfg (failing_cycle n ?e) ?s2"
    by simp
  have rq: "requests ?s2 = requests st @ [(u, c, Suc rc)]" unfolding s2 by simp
  have dl: "delays ?s2 = delays st @ [retryDelay cfg * int (Suc rc)]"
    unfolding s2 by (simp add: ff(4))
  have up: "[Suc rc ..< Suc (rc + Suc n)] = Suc rc # [Suc (Suc rc) ..< Suc (Suc rc + n)]"
    by (simp add: upt_conv_Cons)
  have prefixes: "error (run cfg (take k (failing_cycle (Suc n) ?e)) st) = None"
    if k: "k < length (failing_cycle (Suc n) ?e)" for k
  proof (cases k)
    case 0
    then show ?thesis using Suc.prems(6) by simp
  next
    case (Suc k1)
    show ?thesis
    proof (cases k1)
      case 0
      then show ?thesis using \<open>k = Suc k1\<close> Suc.prems(6) ff(2) by simp
    next
      case (Suc k2)
      have "k2 < length (failing_cycle n ?e)" using k \<open>k = Suc k1\<close> Suc by simp
      then have "error (run cfg (take k2 (failing_cycle n ?e)) ?s2) = None"
        using ih by blast
      then show ?thesis using \<open>k = Suc k1\<close> Suc by simp
    qed
  qed
  show ?case
    unfolding unf using ih prefixes
    by (simp only: rq dl up list.map append_assoc append_Cons append_Nil) simp
qed

text \<open>
  C2. A cycle is started with \<open>fetchData\<close> at retry count 0 while nothing else is
  pending, it is not aborted, the cache does not answer for its locator, and every
  attempt fails with the same axios error (an HTTP error or a network error). With
  \<open>retries = R\<close> the events of the cycle are \<open>R + 1\<close> failures with \<open>R\<close> timers in
  between. Then axios is called exactly \<open>R + 1\<close> times, with retry counts \<open>0, ..., R\<close>;
  the delays given to \<open>setTimeout\<close> are \<open>retryDelay * 1, ..., retryDelay * R\<close> in this
  order; \<open>error\<close> is \<open>null\<close> before the cycle's events and after each of them but the
  last; and after the last failure \<open>error\<close> is the terminal error object. For \<open>R = 0\<close>
  this is one attempt, no delay, and the error after that attempt.
\<close>

theorem persistent_failure_attempts:
  assumes "retries cfg = int R" "inflight st = []" "timers st = []"
    and "c \<notin> set (aborted st)" "\<not> (cache cfg \<and> truthy (getprop (cacheRef st) u))"
  shows "(let evs = failing_cycle R (AxiosError response code);
              st0 = fetchData cfg u c 0 st
          in requests (run cfg evs st0) = requests st @ map (\<lambda>k. (u, c, k)) [0 ..< Suc R]
             \<and> length (requests (run cfg evs st0)) = length (requests st) + R + 1
             \<and> delays (run cfg evs st0)
                 = delays st @ map (\<lambda>k. retryDelay cfg * int k) [1 ..< Suc R]
             \<and> (\<forall>k < length evs. error (run cfg (take k evs) st0) = None)
             \<and> error (run cfg evs st0)
                 = Some \<lparr>message = (case response of
                                      None \<Rightarrow> Str ''An unknown error occurred''
                                    | Some (s, d) \<Rightarrow>
                                        if truthy d then d
                                        else Str ''An unknown error occurred''),
                         status = map_option fst response, type = code\<rparr>
             \<and> inflight (run cfg evs st0) = [] \<and> timers (run cfg evs st0) = [])"
proof -
  let ?st0 = "st\<lparr>loading := True, error := None, inflight := [(u, c, 0)],
                 requests := requests st @ [(u, c, 0)]\<rparr>"
  have st0: "fetchData cfg u c 0 st = ?st0"
    using assms(2,5) by (auto simp add: fetchData_def Let_def)
  have p1: "inflight ?st0 = [(u, c, 0)]" by simp
  have p2: "timers ?st0 = []" using assms(3) by simp
  have p3: "retries cfg = int (0 + R)" using assms(1) by simp
  have p4: "c \<notin> set (aborted ?st0)" using assms(4) by simp
  have p5: "\<not> (cache cfg \<and> truthy (getprop (cacheRef ?st0) u))" using assms(5) by simp
  have p6: "error ?st0 = None" by simp
  note fc = failing_cycle_from [OF p1 p2 p3 p4 p5 p6, of response code]
  have up: "[0 ..< Suc R] = 0 # [Suc 0 ..< Suc (0 + R)]"
    by (simp add: upt_conv_Cons)
  have rq: "requests (run cfg (failing_cycle R (AxiosError response code)) ?st0)
              = requests st @ map (\<lambda>k. (u, c, k)) [0 ..< Suc R]"
    using fc by (simp only: up list.map) simp
  have len: "length (requests (run cfg (failing_cycle R (AxiosError response code)) ?st0))
               = length (requests st) + R + 1"
    unfolding rq by simp
  show ?thesis
    unfolding Let_def st0 using fc rq len by simp
qed

theorem persistent_failure_attempts_witness:
  "retries retry_config = int 2 \<and> inflight (initial ''/items'') = []
   \<and> timers (initial ''/items'') = [] \<and> 0 \<notin> set (aborted (initial ''/items''))
   \<and> \<not> (cache retry_config \<and> truthy (getprop (cacheRef (initial ''/items'')) ''/items''))
   \<and> (let evs = failing_cycle 2 (AxiosError (Some (500, Str ''oops'')) (Some ''ERR_BAD_RESPONSE''));
          st0 = fetchData retry_config ''/items'' 0 0 (initial ''/items'')
      in requests (run retry_config evs st0)
           = [(''/items'', 0, 0), (''/items'', 0, 1), (''/items'', 0, 2)]
         \<and> delays (run retry_config evs st0) = [100, 200]
         \<and> error (run retry_config (take 4 evs) st0) = None
         \<and> error (run retry_config evs st0)
             = Some \<lparr>message = Str ''oops'', status = Some 500,
                     type = Some ''ERR_BAD_RESPONSE''\<rparr>)"
proof -
  have h1: "retries retry_config = int 2" by (simp add: retry_config_def)
  have h2: "inflight (initial ''/items'') = []" by (simp add: initial_def)
  have h3: "timers (initial ''/items'') = []" by (simp add: initial_def)
  have h4: "0 \<notin> set (aborted (initial ''/items''))" by (simp add: initial_def)
  have h5: "\<not> (cache retry_config \<and> truthy (getprop (cacheRef (initial ''/items'')) ''/items''))"
    by (simp add: retry_config_def)
  note t = persistent_failure_attempts [OF h1 h2 h3 h4 h5,
      of "Some (500, Str ''oops'')" "Some ''ERR_BAD_RESPONSE''"]
  have four: "4 < length (failing_cycle 2 (AxiosError (Some (500, Str ''oops''))
                 (Some ''ERR_BAD_RESPONSE'')))"
    by (simp add: length_failing_cycle)
  have up: "[0 ..< Suc 2] = [0, 1, 2]" "[1 ..< Suc 2] = [1, 2]"
    by (simp_all add: upt_conv_Cons)
  have rq: "requests (initial ''/items'') = []" and dl: "delays (initial ''/items'') = []"
    and rd: "retryDelay retry_config = 100"
    by (simp_all add: initial_def retry_config_def)
  show ?thesis
    using t four h1 h2 h3 h4 h5 unfolding Let_def up rq dl rd
    by simp
qed

subsection \<open>The cache\<close>




text \<open>With batching the cache is never written: each function leaves \<open>cacheRef\<close> alone.\<close>

lemma fetchData_cacheRef: "cacheRef (fetchData cfg u c rc st) = cacheRef st"
  by (simp add: fetchData_def Let_def)

lemma catch_block_cacheRef: "cacheRef (catch_block cfg a e st) = cacheRef st"
  by (simp add: catch_block_def Let_def split: prod.splits thrown.splits)

lemma finally_block_cacheRef: "cacheRef (finally_block a st) = cacheRef st"
  by (simp add: finally_block_def split: prod.splits)

lemma try_block_cacheRef:
  "batchSize cfg \<noteq> 1 \<Longrightarrow> cacheRef (try_block cfg a r st) = cacheRef st"
  by (simp add: try_block_def Let_def catch_block_cacheRef
      split: prod.splits sum.splits option.splits)

lemma settled_cacheRef:
  "batchSize cfg \<noteq> 1 \<Longrightarrow> cacheRef (fetchData_settled cfg a oc st) = cacheRef st"
  by (simp add: fetchData_settled_def finally_block_cacheRef try_block_cacheRef
      catch_block_cacheRef split: outcome.splits)

lemma useEffect_cacheRef: "cacheRef (useEffect cfg st) = cacheRef st"
  by (simp add: useEffect_def Let_def fetchData_cacheRef)

lemma fetchPage_cacheRef: "cacheRef (fetchPage cfg n st) = cacheRef st"
  by (simp add: fetchPage_def rerender_def Let_def useEffect_cacheRef useEffect_cleanup_def)

lemma step_cacheRef:
  "batchSize cfg \<noteq> 1 \<Longrightarrow> cacheRef (step cfg ev st) = cacheRef st"
  by (cases ev)
     (simp_all add: step.simps settled_cacheRef fetchData_cacheRef fetchPage_cacheRef
        fetchMore_def Let_def split: prod.splits option.splits)

lemma run_cacheRef:
  "batchSize cfg \<noteq> 1 \<Longrightarrow> cacheRef (run cfg evs st) = cacheRef st"
  by (induction evs arbitrary: st) (simp_all add: step_cacheRef)

lemma mount_cacheRef: "cacheRef (mount cfg u) = Map.empty"
  by (simp add: mount_def useEffect_cacheRef initial_def)

lemma fetchData_miss:
  "cacheRef st = Map.empty \<Longrightarrow>
   fetchData cfg u c rc st =
     st\<lparr>loading := True, error := None, inflight := inflight st @ [(u, c, rc)],
        requests := requests st @ [(u, c, rc)]\<rparr>"
  by (simp add: fetchData_def Let_def getprop_def)

text \<open>
  C10. With \<open>batchSize > 1\<close>, whatever \<open>cache\<close> is: after any events on a mounted hook
  the cache store is empty, and every call of \<open>fetchData\<close> in such a state takes the
  branch that calls axios: it adds its request to those in flight and does not touch
  \<open>data\<close>.
\<close>

theorem batching_never_caches:
  assumes "1 < batchSize cfg"
  shows "cacheRef (run cfg evs (mount cfg u0)) = Map.empty
       \<and> fetchData cfg u c rc (run cfg evs (mount cfg u0))
           = (run cfg evs (mount cfg u0))
               \<lparr>loading := True, error := None,
                inflight := inflight (run cfg evs (mount cfg u0)) @ [(u, c, rc)],
                requests := requests (run cfg evs (mount cfg u0)) @ [(u, c, rc)]\<rparr>"
proof -
  have ne: "batchSize cfg \<noteq> 1" using assms by simp
  have e: "cacheRef (run cfg evs (mount cfg u0)) = Map.empty"
    by (simp add: run_cacheRef [OF ne] mount_cacheRef)
  show ?thesis using e fetchData_miss [OF e] by simp
qed

theorem batching_never_caches_witness:
  "1 < batchSize batch_config \<and> cache batch_config
   \<and> cacheRef (run batch_config [Resolve 0 (Success (Num 1)), Tick, FetchPage 2]
                (mount batch_config ''/items'')) = Map.empty
   \<and> requests (fetchData batch_config ''/items'' 0 0
                 (run batch_config [Resolve 0 (Success (Num 1)), Tick, FetchPage 2]
                    (mount batch_config ''/items'')))
       = requests (run batch_config [Resolve 0 (Success (Num 1)), Tick, FetchPage 2]
                    (mount batch_config ''/items'')) @ [(''/items'', 0, 0)]"
proof -
  have h: "1 < batchSize batch_config"
    by (simp add: batch_config_def polling_cache_config_def)
  note t = batching_never_caches [OF h,
      of "[Resolve 0 (Success (Num 1)), Tick, FetchPage 2]" "''/items''" "''/items''" 0 0]
  have c: "cache batch_config" by (simp add: batch_config_def polling_cache_config_def)
  have r: "requests (fetchData batch_config ''/items'' 0 0
                 (run batch_config [Resolve 0 (Success (Num 1)), Tick, FetchPage 2]
                    (mount batch_config ''/items'')))
       = requests (run batch_config [Resolve 0 (Success (Num 1)), Tick, FetchPage 2]
                    (mount batch_config ''/items'')) @ [(''/items'', 0, 0)]"
    by (subst t [THEN conjunct2]) simp
  show ?thesis using h c t [THEN conjunct1] r by blast
qed

subsection \<open>Batching\<close>

text \<open>One successful fetch while the buffer stays short of a batch, and the one that fills it.\<close>

lemma fetch_buffered:
  assumes "batchSize cfg \<noteq> 1" "cacheRef st = Map.empty" "transformData cfg r = Inr t"
    and "int (Suc (length (batchedRequestsRef st))) < batchSize cfg"
  shows "data (fetch cfg a (Success r) st) = data st"
    and "batchedRequestsRef (fetch cfg a (Success r) st) = batchedRequestsRef st @ [t]"
    and "cacheRef (fetch cfg a (Success r) st) = Map.empty"
proof -
  obtain u c rc where a: "a = (u, c, rc)" by (cases a) auto
  have m: "\<not> truthy (getprop (cacheRef st) u)" using assms(2) by (simp add: getprop_def)
  show "data (fetch cfg a (Success r) st) = data st"
    and "batchedRequestsRef (fetch cfg a (Success r) st) = batchedRequestsRef st @ [t]"
    and "cacheRef (fetch cfg a (Success r) st) = Map.empty"
    using assms unfolding a fetch_miss [OF m]
    by (simp_all add: fetchData_settled_def try_block_def finally_block_def Let_def)
qed

lemma fetch_flushed:
  assumes "batchSize cfg \<noteq> 1" "cacheRef st = Map.empty" "transformData cfg r = Inr t"
    and "batchSize cfg \<le> int (Suc (length (batchedRequestsRef st)))"
    and "(case onBatchedResponse cfg of None \<Rightarrow> Inr (Arr (batchedRequestsRef st @ [t]))
          | Some f \<Rightarrow> f (batchedRequestsRef st @ [t])) = Inr payload"
  shows "data (fetch cfg a (Success r) st) = payload"
    and "batchedRequestsRef (fetch cfg a (Success r) st) = []"
    and "cacheRef (fetch cfg a (Success r) st) = Map.empty"
proof -
  obtain u c rc where a: "a = (u, c, rc)" by (cases a) auto
  have m: "\<not> truthy (getprop (cacheRef st) u)" using assms(2) by (simp add: getprop_def)
  show "data (fetch cfg a (Success r) st) = payload"
    and "batchedRequestsRef (fetch cfg a (Success r) st) = []"
    and "cacheRef (fetch cfg a (Success r) st) = Map.empty"
    using assms unfolding a fetch_miss [OF m]
    by (cases "onBatchedResponse cfg";
        simp add: fetchData_settled_def try_block_def finally_block_def Let_def)+
qed

lemma fetches_append:
  "fetches cfg (xs @ ys) st = fetches cfg ys (fetches cfg xs st)"
  by (induction xs arbitrary: st) auto

lemma fetches_buffered:
  assumes "batchSize cfg \<noteq> 1" "cacheRef st = Map.empty"
    and "map (\<lambda>x. transformData cfg (snd x)) xs = map Inr ts"
    and "int (length (batchedRequestsRef st) + length xs) < batchSize cfg"
  shows "data (fetches cfg xs st) = data st
       \<and> batchedRequestsRef (fetches cfg xs st) = batchedRequestsRef st @ ts
       \<and> cacheRef (fetches cfg xs st) = Map.empty"
  using assms
proof (induction xs arbitrary: st ts)
  case Nil
  then show ?case by simp
next
  case (Cons x xs)
  obtain a r where x: "x = (a, r)" by (cases x) auto
  obtain t ts' where ts: "ts = t # ts'" and t: "transformData cfg r = Inr t"
    and rest: "map (\<lambda>x. transformData cfg (snd x)) xs = map Inr ts'"
    using Cons.prems(3) x by (cases ts) auto
  have small: "int (Suc (length (batchedRequestsRef st))) < batchSize cfg"
    using Cons.prems(4) by simp
  note fb = fetch_buffered [OF Cons.prems(1) Cons.prems(2) t small, of a]
  have len: "int (length (batchedRequestsRef (fetch cfg a (Success r) st)) + length xs)
               < batchSize cfg"
    using Cons.prems(4) by (simp add: fb(2))
  note ih = Cons.IH [OF Cons.prems(1) fb(3) rest len]
  show ?case using ih by (simp add: x ts fb)
qed

text \<open>
  C5. \<open>batchSize = N > 1\<close>, the buffer and the cache store are empty, and \<open>N\<close> fetches
  follow one another, each a call of \<open>fetchData\<close> whose request succeeds and whose
  response \<open>transformData\<close> turns into the values \<open>ts\<close>; \<open>onBatchedResponse\<close>, when
  given, returns \<open>payload\<close> for \<open>ts\<close>, and without it \<open>payload\<close> is the array \<open>ts\<close>. Then
  after each of the first \<open>N - 1\<close> fetches \<open>data\<close> is what it was and the buffer holds
  the values transformed so far; after the \<open>N\<close>-th \<open>data\<close> is \<open>payload\<close> and the buffer
  is empty; and after every one of them the buffer is shorter than \<open>N\<close>.
\<close>

theorem batch_flush_on_Nth:
  assumes "batchSize cfg = int N" "1 < N"
    and "batchedRequestsRef st = []" "cacheRef st = Map.empty"
    and "length xs = N"
    and "map (\<lambda>x. transformData cfg (snd x)) xs = map Inr ts"
    and "(case onBatchedResponse cfg of None \<Rightarrow> Inr (Arr ts) | Some f \<Rightarrow> f ts) = Inr payload"
  shows "(\<forall>k<N. data (fetches cfg (take k xs) st) = data st
              \<and> batchedRequestsRef (fetches cfg (take k xs) st) = take k ts)
       \<and> data (fetches cfg xs st) = payload
       \<and> batchedRequestsRef (fetches cfg xs st) = []
       \<and> (\<forall>k\<le>N. length (batchedRequestsRef (fetches cfg (take k xs) st)) < N)"
proof -
  have ne: "batchSize cfg \<noteq> 1" using assms(1,2) by simp
  have lts: "length ts = N"
    using assms(5,6) by (metis length_map)
  have before: "data (fetches cfg (take k xs) st) = data st
              \<and> batchedRequestsRef (fetches cfg (take k xs) st) = take k ts
              \<and> cacheRef (fetches cfg (take k xs) st) = Map.empty" if k: "k < N" for k
  proof -
    have m: "map (\<lambda>x. transformData cfg (snd x)) (take k xs) = map Inr (take k ts)"
      using assms(6) by (simp add: take_map [symmetric])
    have l: "int (length (batchedRequestsRef st) + length (take k xs)) < batchSize cfg"
      using k assms(1,3,5) by simp
    show ?thesis
      using fetches_buffered [OF ne assms(4) m l] assms(3) by simp
  qed
  obtain ys x where xs: "xs = ys @ [x]"
    using assms(2,5) by (cases xs rule: rev_cases) auto
  obtain a r where x: "x = (a, r)" by (cases x) auto
  have ys: "ys = take (N - 1) xs" using xs assms(5) by simp
  obtain t where t: "transformData cfg r = Inr t" and tl: "ts = take (N - 1) ts @ [t]"
  proof -
    have "map (\<lambda>x. transformData cfg (snd x)) ys @ [transformData cfg r] = map Inr ts"
      using assms(6) xs x by simp
    moreover have "ts \<noteq> []" using lts assms(2) by auto
    then obtain us t where "ts = us @ [t]" by (cases ts rule: rev_cases) auto
    ultimately show ?thesis using that lts by auto
  qed
  let ?s = "fetches cfg ys st"
  have k1: "N - 1 < N" using assms(2) by simp
  note b = before [OF k1]
  have sdata: "batchedRequestsRef ?s = take (N - 1) ts" and scache: "cacheRef ?s = Map.empty"
    using b ys by simp_all
  have full: "batchSize cfg \<le> int (Suc (length (batchedRequestsRef ?s)))"
    using sdata lts assms(1,2) by simp
  have cb: "(case onBatchedResponse cfg of None \<Rightarrow> Inr (Arr (batchedRequestsRef ?s @ [t]))
             | Some f \<Rightarrow> f (batchedRequestsRef ?s @ [t])) = Inr payload"
  proof -
    have "batchedRequestsRef ?s @ [t] = ts" using tl sdata by simp
    then show ?thesis using assms(7) by (simp only:)
  qed
  note ff = fetch_flushed [OF ne scache t full cb, of a]
  have fin: "fetches cfg xs st = fetch cfg a (Success r) ?s"
    by (simp add: xs x fetches_append)
  have after: "data (fetches cfg xs st) = payload" "batchedRequestsRef (fetches cfg xs st) = []"
    using ff by (simp_all add: fin)
  have bound: "length (batchedRequestsRef (fetches cfg (take k xs) st)) < N" if "k \<le> N" for k
  proof (cases "k < N")
    case True
    then show ?thesis using before [OF True] lts by simp
  next
    case False
    then have "take k xs = xs" using that assms(5) by simp
    then show ?thesis using after(2) assms(2) by simp
  qed
  show ?thesis using before after bound by blast
qed

theorem batch_flush_on_Nth_witness:
  "batchSize batch_config = int 2 \<and> 1 < (2::nat)
   \<and> batchedRequestsRef (initial ''/items'') = [] \<and> cacheRef (initial ''/items'') = Map.empty
   \<and> length [((''/items'', 0::nat, 0::nat), Num 1), ((''/items'', 0, 0), Num 2)] = 2
   \<and> map (\<lambda>x. transformData batch_config (snd x))
         [((''/items'', 0::nat, 0::nat), Num 1), ((''/items'', 0, 0), Num 2)]
       = map Inr [Num 1, Num 2]
   \<and> (case onBatchedResponse batch_config of None \<Rightarrow> Inr (Arr [Num 1, Num 2])
       | Some f \<Rightarrow> f [Num 1, Num 2]) = Inr (Arr [Num 1, Num 2])
   \<and> (let xs = [((''/items'', 0, 0), Num 1), ((''/items'', 0, 0), Num 2)];
          s1 = fetches batch_config (take 1 xs) (initial ''/items'');
          s2 = fetches batch_config xs (initial ''/items'')
      in data s1 = Null \<and> batchedRequestsRef s1 = [Num 1]
         \<and> data s2 = Arr [Num 1, Num 2] \<and> batchedRequestsRef s2 = [])"
proof -
  let ?xs = "[((''/items'', 0::nat, 0::nat), Num 1), ((''/items'', 0, 0), Num 2)]"
  have h1: "batchSize batch_config = int 2"
    by (simp add: batch_config_def polling_cache_config_def)
  have h2: "1 < (2::nat)" by simp
  have h3: "batchedRequestsRef (initial ''/items'') = []" by (simp add: initial_def)
  have h4: "cacheRef (initial ''/items'') = Map.empty" by (simp add: initial_def)
  have h5: "length ?xs = 2" by simp
  have h6: "map (\<lambda>x. transformData batch_config (snd x)) ?xs = map Inr [Num 1, Num 2]"
    by (simp add: batch_config_def polling_cache_config_def)
  have h7: "(case onBatchedResponse batch_config of None \<Rightarrow> Inr (Arr [Num 1, Num 2])
             | Some f \<Rightarrow> f [Num 1, Num 2]) = Inr (Arr [Num 1, Num 2])"
    by (simp add: batch_config_def polling_cache_config_def)
  note t = batch_flush_on_Nth [OF h1 h2 h3 h4 h5 h6 h7]
  have one: "(1::nat) < 2" by simp
  note t1 = t [THEN conjunct1, rule_format, OF one]
  have d0: "data (initial ''/items'') = Null" by (simp add: initial_def)
  have s1: "data (fetches batch_config (take 1 ?xs) (initial ''/items'')) = Null"
    "batchedRequestsRef (fetches batch_config (take 1 ?xs) (initial ''/items'')) = [Num 1]"
    using t1 d0 by simp_all
  have s2: "data (fetches batch_config ?xs (initial ''/items'')) = Arr [Num 1, Num 2]"
    "batchedRequestsRef (fetches batch_config ?xs (initial ''/items'')) = []"
    using t by simp_all
  show ?thesis
    unfolding Let_def using h1 h3 h4 h6 h7 s1 s2 by simp
qed

text \<open>Nothing but a successful response touches the buffer.\<close>

lemma fetchData_buffer: "batchedRequestsRef (fetchData cfg u c rc st) = batchedRequestsRef st"
  by (simp add: fetchData_def Let_def)

lemma useEffect_buffer: "batchedRequestsRef (useEffect cfg st) = batchedRequestsRef st"
  by (simp add: useEffect_def Let_def fetchData_buffer)

lemma cleanup_buffer: "batchedRequestsRef (useEffect_cleanup st) = batchedRequestsRef st"
  by (simp add: useEffect_cleanup_def)

lemma fetchPage_buffer: "batchedRequestsRef (fetchPage cfg n st) = batchedRequestsRef st"
  by (simp add: fetchPage_def rerender_def Let_def useEffect_buffer cleanup_buffer)

text \<open>
  The bound on the buffer is an invariant: with \<open>batchSize > 1\<close> and an
  \<open>onBatchedResponse\<close> that returns whenever it is called, the buffer is shorter than
  \<open>batchSize\<close> in every state a mounted hook reaches.
\<close>

lemma catch_block_buffer: "batchedRequestsRef (catch_block cfg a e st) = batchedRequestsRef st"
  by (simp add: catch_block_def Let_def split: prod.splits thrown.splits)

lemma finally_block_buffer: "batchedRequestsRef (finally_block a st) = batchedRequestsRef st"
  by (simp add: finally_block_def split: prod.splits)

lemma try_block_bound:
  assumes "1 < batchSize cfg" "\<forall>f buf. onBatchedResponse cfg = Some f \<longrightarrow> (\<exists>v. f buf = Inr v)"
    and "int (length (batchedRequestsRef st)) < batchSize cfg"
  shows "int (length (batchedRequestsRef (try_block cfg a r st))) < batchSize cfg"
proof -
  obtain u c rc where a: "a = (u, c, rc)" by (cases a) auto
  show ?thesis
  proof (cases "onBatchedResponse cfg")
    case None
    then show ?thesis using assms(1,3) unfolding a
      by (simp add: try_block_def Let_def catch_block_buffer split: sum.splits)
  next
    case (Some f)
    have ex: "\<exists>v. f (batchedRequestsRef st @ [t]) = Inr v" for t
      using assms(2) Some by blast
    show ?thesis
    proof (cases "transformData cfg r")
      case (Inl msg)
      then show ?thesis using assms(3) unfolding a
        by (simp add: try_block_def catch_block_buffer)
    next
      case (Inr t)
      obtain v where v: "f (batchedRequestsRef st @ [t]) = Inr v" using ex by blast
      show ?thesis using assms(1,3) Some Inr v unfolding a
        by (simp add: try_block_def Let_def)
    qed
  qed
qed

lemma step_buffer_bound:
  assumes "1 < batchSize cfg" "\<forall>f buf. onBatchedResponse cfg = Some f \<longrightarrow> (\<exists>v. f buf = Inr v)"
    and "int (length (batchedRequestsRef st)) < batchSize cfg"
  shows "int (length (batchedRequestsRef (step cfg ev st))) < batchSize cfg"
proof (cases ev)
  case (Resolve i oc)
  show ?thesis
  proof (cases oc)
    case (Success r)
    have "int (length (batchedRequestsRef (st\<lparr>inflight := remove_nth i (inflight st)\<rparr>)))
            < batchSize cfg"
      using assms(3) by simp
    from try_block_bound [OF assms(1) assms(2) this]
    show ?thesis using assms(3) Resolve Success
      by (simp add: step.simps fetchData_settled_def finally_block_buffer)
  next
    case (Failure e)
    then show ?thesis using assms(3) Resolve
      by (simp add: step.simps fetchData_settled_def finally_block_buffer catch_block_buffer)
  qed
next
  case (Fire i)
  then show ?thesis using assms(3)
    by (simp add: step.simps fetchData_buffer split: prod.splits)
next
  case Tick
  then show ?thesis using assms(3)
    by (simp add: step.simps fetchData_buffer split: option.splits)
next
  case (FetchPage n)
  then show ?thesis using assms(3) by (simp add: step.simps fetchPage_buffer)
next
  case FetchMore
  then show ?thesis using assms(3) by (simp add: step.simps fetchMore_def fetchPage_buffer)
qed

lemma buffer_below_batchSize:
  assumes "1 < batchSize cfg" "\<forall>f buf. onBatchedResponse cfg = Some f \<longrightarrow> (\<exists>v. f buf = Inr v)"
  shows "int (length (batchedRequestsRef (run cfg evs (mount cfg u0)))) < batchSize cfg"
proof -
  have gen: "int (length (batchedRequestsRef st)) < batchSize cfg \<Longrightarrow>
             int (length (batchedRequestsRef (run cfg evs st))) < batchSize cfg" for st
  proof (induction evs arbitrary: st)
    case Nil
    then show ?case by simp
  next
    case (Cons ev evs)
    show ?case
      using Cons.IH [OF step_buffer_bound [OF assms(1) assms(2) Cons.prems]] by simp
  qed
  have "batchedRequestsRef (mount cfg u0) = []"
    by (simp add: mount_def useEffect_buffer initial_def)
  then show ?thesis using gen [of "mount cfg u0"] assms(1) by simp
qed

text \<open>
  C9. A change of locator leaves the buffer as it is: \<open>fetchPage\<close>, \<open>fetchMore\<close>, the
  effect's cleanup followed by the effect, and the start of any call of \<open>fetchData\<close>
  do not change \<open>batchedRequestsRef\<close>. So results of different locators meet in one
  buffer: with batches of two and no \<open>onBatchedResponse\<close>, the hook is mounted on \<open>u0\<close>
  and its response is buffered; after \<open>fetchPage(n)\<close> the buffer still holds it; the
  response of the second locator fills the batch, and \<open>data\<close> becomes the array of the
  two values, one from each locator.
\<close>

theorem buffer_survives_locator_change:
  assumes "batchSize cfg = 2" "onBatchedResponse cfg = None"
    and "transformData cfg r1 = Inr t1" "transformData cfg r2 = Inr t2"
  shows "batchedRequestsRef (fetchPage cfg n st) = batchedRequestsRef st
       \<and> batchedRequestsRef (fetchMore cfg st) = batchedRequestsRef st
       \<and> batchedRequestsRef (useEffect cfg (useEffect_cleanup st)) = batchedRequestsRef st
       \<and> batchedRequestsRef (fetchData cfg u c rc st) = batchedRequestsRef st
       \<and> (let st1 = run cfg [Resolve 0 (Success r1)] (mount cfg u0);
              st2 = run cfg [FetchPage n, Resolve 0 (Success r2)] st1
          in requests st2 = [(u0, 0, 0), (u0 @ ''?page='' @ show_int n, 1, 0)]
             \<and> data st1 = Null \<and> batchedRequestsRef st1 = [t1]
             \<and> batchedRequestsRef (fetchPage cfg n st1) = [t1]
             \<and> data st2 = Arr [t1, t2] \<and> batchedRequestsRef st2 = [])"
proof -
  have a: "batchedRequestsRef (fetchPage cfg n st) = batchedRequestsRef st
       \<and> batchedRequestsRef (fetchMore cfg st) = batchedRequestsRef st
       \<and> batchedRequestsRef (useEffect cfg (useEffect_cleanup st)) = batchedRequestsRef st
       \<and> batchedRequestsRef (fetchData cfg u c rc st) = batchedRequestsRef st"
    by (simp add: fetchPage_buffer fetchMore_def Let_def useEffect_buffer cleanup_buffer
        fetchData_buffer)
  have b: "(let st1 = run cfg [Resolve 0 (Success r1)] (mount cfg u0);
              st2 = run cfg [FetchPage n, Resolve 0 (Success r2)] st1
          in requests st2 = [(u0, 0, 0), (u0 @ ''?page='' @ show_int n, 1, 0)]
             \<and> data st1 = Null \<and> batchedRequestsRef st1 = [t1]
             \<and> batchedRequestsRef (fetchPage cfg n st1) = [t1]
             \<and> data st2 = Arr [t1, t2] \<and> batchedRequestsRef st2 = [])"
    using assms
    by (cases "pollInterval cfg")
       (simp_all add: mount_def initial_def useEffect_def useEffect_cleanup_def rerender_def
          fetchData_def fetchData_settled_def try_block_def finally_block_def fetchPage_def
          remove_nth_def getprop_def step.simps Let_def)
  show ?thesis using a b by simp
qed

theorem buffer_survives_locator_change_witness:
  "batchSize batch_config = 2 \<and> onBatchedResponse batch_config = None
   \<and> transformData batch_config (Num 1) = Inr (Num 1)
   \<and> transformData batch_config (Num 2) = Inr (Num 2)
   \<and> (let st1 = run batch_config [Resolve 0 (Success (Num 1))] (mount batch_config ''/items'');
          st2 = run batch_config [FetchPage 2, Resolve 0 (Success (Num 2))] st1
      in requests st2 = [(''/items'', 0, 0), (''/items?page=2'', 1, 0)]
         \<and> batchedRequestsRef (fetchPage batch_config 2 st1) = [Num 1]
         \<and> data st2 = Arr [Num 1, Num 2])"
proof -
  have h1: "batchSize batch_config = 2" and h2: "onBatchedResponse batch_config = None"
    and h3: "transformData batch_config (Num 1) = Inr (Num 1)"
    and h4: "transformData batch_config (Num 2) = Inr (Num 2)"
    by (simp_all add: batch_config_def polling_cache_config_def)
  note t = buffer_survives_locator_change [OF h1 h2 h3 h4,
      of 2 "initial ''/items''" "''/items''" 0 0 "''/items''"]
  have p: "''/items'' @ ''?page='' @ show_int 2 = ''/items?page=2''"
    by (simp add: show_int_def digits.simps)
  show ?thesis
    using t h1 h2 h3 h4 unfolding Let_def p by simp
qed

subsection \<open>Pagination\<close>

text \<open>The invariant of the locators holds after mounting and is kept by every event.\<close>

lemma ub_fetchData:
  "urls_bounded st \<Longrightarrow> length u \<le> length (url st) \<Longrightarrow> urls_bounded (fetchData cfg u c rc st)"
  by (auto simp add: urls_bounded_def fetchData_def Let_def)

lemma ub_catch:
  "urls_bounded st \<Longrightarrow> length (fst a) \<le> length (url st) \<Longrightarrow>
   urls_bounded (catch_block cfg a e st)"
  by (auto simp add: urls_bounded_def catch_block_def Let_def split: prod.splits thrown.splits)

lemma ub_try:
  "urls_bounded st \<Longrightarrow> length (fst a) \<le> length (url st) \<Longrightarrow>
   urls_bounded (try_block cfg a r st)"
proof -
  assume ub: "urls_bounded st" and le: "length (fst a) \<le> length (url st)"
  obtain u c rc where a: "a = (u, c, rc)" by (cases a) auto
  have push: "urls_bounded (st\<lparr>batchedRequestsRef := b\<rparr>)" for b
    using ub by (simp add: urls_bounded_def)
  have c1: "urls_bounded (catch_block cfg a e (st\<lparr>batchedRequestsRef := b\<rparr>))" for e b
    using ub_catch [OF push] le by simp
  have c0: "urls_bounded (catch_block cfg a e st)" for e
    using ub_catch [OF ub le] .
  show ?thesis
    using ub le c0 c1 unfolding a try_block_def
    by (auto simp add: urls_bounded_def Let_def split: sum.splits option.splits)
qed

lemma ub_finally: "urls_bounded st \<Longrightarrow> urls_bounded (finally_block a st)"
  by (auto simp add: urls_bounded_def finally_block_def split: prod.splits)

lemma ub_settled:
  "urls_bounded st \<Longrightarrow> length (fst a) \<le> length (url st) \<Longrightarrow>
   urls_bounded (fetchData_settled cfg a oc st)"
  by (cases oc) (simp_all add: fetchData_settled_def ub_finally ub_try ub_catch)

lemma ub_useEffect:
  "urls_bounded st \<Longrightarrow> urls_bounded (useEffect cfg (useEffect_cleanup st))"
proof -
  assume ub: "urls_bounded st"
  let ?s = "(useEffect_cleanup st)\<lparr>cancelRequestRef := Some False,
              controller := nextController st, nextController := nextController st + 1\<rparr>"
  have "urls_bounded ?s" using ub by (simp add: urls_bounded_def useEffect_cleanup_def)
  then have "urls_bounded (fetchData cfg (url ?s) (nextController st) 0 ?s)"
    by (rule ub_fetchData) simp
  then show ?thesis
    by (simp add: useEffect_def Let_def useEffect_cleanup_def urls_bounded_def)
qed

lemma ub_longer:
  "urls_bounded st \<Longrightarrow> urls_bounded (st\<lparr>url := url st @ s\<rparr>)"
  by (auto simp add: urls_bounded_def intro: trans_le_add1)

lemma ub_fetchPage: "urls_bounded st \<Longrightarrow> urls_bounded (fetchPage cfg n st)"
proof -
  assume ub: "urls_bounded st"
  let ?next = "url st @ ''?page='' @ show_int n"
  have a: "urls_bounded (st\<lparr>url := ?next\<rparr>)" by (rule ub_longer [OF ub])
  have b: "urls_bounded (st\<lparr>url := ?next, page := n\<rparr>)"
    using a by (simp add: urls_bounded_def)
  have c: "urls_bounded (st\<lparr>url := ?next, page := n, pageCalls := pageCalls st @ [n]\<rparr>)"
    using a by (simp add: urls_bounded_def)
  show ?thesis
    using ub_useEffect [OF b] ub_useEffect [OF c]
    by (simp add: fetchPage_def rerender_def Let_def)
qed

lemma ub_step: "urls_bounded st \<Longrightarrow> urls_bounded (step cfg ev st)"
proof (cases ev)
  case (Resolve i oc)
  assume ub: "urls_bounded st"
  show ?thesis
  proof (cases "i < length (inflight st)")
    case True
    have "urls_bounded (st\<lparr>inflight := remove_nth i (inflight st)\<rparr>)"
      using ub set_remove_nth [of i "inflight st"] by (auto simp add: urls_bounded_def)
    moreover have "length (fst (inflight st ! i)) \<le> length (url st)"
      using ub True by (simp add: urls_bounded_def)
    ultimately show ?thesis using True Resolve by (simp add: step.simps ub_settled)
  next
    case False
    then show ?thesis using ub Resolve by (simp add: step.simps)
  qed
next
  case (Fire i)
  assume ub: "urls_bounded st"
  show ?thesis
  proof (cases "i < length (timers st)")
    case True
    obtain d u c rc where t: "timers st ! i = (d, u, c, rc)" by (cases "timers st ! i") auto
    have "urls_bounded (st\<lparr>timers := remove_nth i (timers st)\<rparr>)"
      using ub set_remove_nth [of i "timers st"] by (auto simp add: urls_bounded_def)
    moreover have "length u \<le> length (url st)"
      using ub True t nth_mem [OF True] by (fastforce simp add: urls_bounded_def)
    ultimately show ?thesis using True Fire t by (simp add: step.simps ub_fetchData)
  next
    case False
    then show ?thesis using ub Fire by (simp add: step.simps)
  qed
next
  case Tick
  assume ub: "urls_bounded st"
  then show ?thesis using Tick by (simp add: step.simps ub_fetchData split: option.splits)
next
  case (FetchPage n)
  assume "urls_bounded st"
  then show ?thesis using FetchPage by (simp add: step.simps ub_fetchPage)
next
  case FetchMore
  assume "urls_bounded st"
  then show ?thesis using FetchMore by (simp add: step.simps fetchMore_def ub_fetchPage)
qed

lemma ub_run: "urls_bounded st \<Longrightarrow> urls_bounded (run cfg evs st)"
  by (induction evs arbitrary: st) (simp_all add: ub_step)

lemma ub_mount: "urls_bounded (mount cfg u)"
proof -
  have "urls_bounded (initial u)" by (simp add: urls_bounded_def initial_def)
  then have "urls_bounded (useEffect cfg (useEffect_cleanup (initial u)))" by (rule ub_useEffect)
  then show ?thesis
    by (simp add: mount_def useEffect_def useEffect_cleanup_def initial_def urls_bounded_def
        fetchData_def Let_def)
qed

text \<open>So the locator of the next page was never fetched: the cache has no entry for it.\<close>

lemma ub_fresh:
  assumes "urls_bounded st" "s \<noteq> []"
  shows "getprop (cacheRef st) (url st @ s) = Undefined"
proof -
  have "url st @ s \<notin> dom (cacheRef st)"
  proof
    assume "url st @ s \<in> dom (cacheRef st)"
    moreover have "\<forall>k \<in> dom (cacheRef st). length k \<le> length (url st)"
      using assms(1) by (simp add: urls_bounded_def)
    ultimately have "length (url st @ s) \<le> length (url st)" by blast
    then show False using assms(2) by simp
  qed
  then show ?thesis by (simp add: getprop_def domIff)
qed

lemma fetchPage_unfold:
  assumes "getprop (cacheRef st) (url st @ ''?page='' @ show_int n) = Undefined"
  shows "fetchPage cfg n st
         = st\<lparr>url := url st @ ''?page='' @ show_int n, page := n,
              pageCalls := (if onPageChange cfg then pageCalls st @ [n] else pageCalls st),
              aborted := controller st # aborted st,
              cancelRequestRef := Some False,
              controller := nextController st,
              nextController := nextController st + 1,
              loading := True, error := None,
              inflight := inflight st @ [(url st @ ''?page='' @ show_int n, nextController st, 0)],
              requests := requests st @ [(url st @ ''?page='' @ show_int n, nextController st, 0)],
              intervalId := (case pollInterval cfg of None \<Rightarrow> None
                             | Some ms \<Rightarrow> if ms \<noteq> 0 then Some (nextController st) else None)\<rparr>"
  using assms
  by (cases "pollInterval cfg")
     (simp_all add: fetchPage_def rerender_def useEffect_def useEffect_cleanup_def fetchData_def
        Let_def)

text \<open>
  What \<open>fetchPage(n)\<close> does in any state a mounted hook can reach: it sets \<open>page\<close> to
  \<open>n\<close>, calls \<open>onPageChange(n)\<close> once when the callback is given and not otherwise,
  and sets \<open>url\<close> to the locator it had with \<open>?page=n\<close> appended; the effect then runs
  for the new locator and calls axios exactly once, for that locator, as the first
  attempt of a new controller. \<open>fetchMore()\<close> is \<open>fetchPage(page + 1)\<close> for the current
  \<open>page\<close>.
\<close>

lemma fetchPage_from_current_url:
  "(let st = run cfg evs (mount cfg u0);
        nextPageUrl = url st @ ''?page='' @ show_int n;
        st' = fetchPage cfg n st
    in page st' = n
       \<and> url st' = nextPageUrl
       \<and> pageCalls st' = (if onPageChange cfg then pageCalls st @ [n] else pageCalls st)
       \<and> requests st' = requests st @ [(nextPageUrl, controller st', 0)]
       \<and> inflight st' = inflight st @ [(nextPageUrl, controller st', 0)]
       \<and> fetchMore cfg st = fetchPage cfg (page st + 1) st)"
proof -
  let ?st = "run cfg evs (mount cfg u0)"
  have ub: "urls_bounded ?st" by (rule ub_run [OF ub_mount])
  have "getprop (cacheRef ?st) (url ?st @ ''?page='' @ show_int n) = Undefined"
    by (rule ub_fresh [OF ub]) simp
  note fp = fetchPage_unfold [OF this, of cfg]
  show ?thesis
    unfolding Let_def
    by (simp add: fp fetchMore_def)
qed

lemma fetchPage_url: "url (fetchPage cfg n st) = url st @ ''?page='' @ show_int n"
  by (simp add: fetchPage_def rerender_def useEffect_def useEffect_cleanup_def fetchData_def
      Let_def)

text \<open>
  C8. The claim: \<open>fetchPage(n)\<close> sets \<open>page\<close> to \<open>n\<close>, calls \<open>onPageChange(n)\<close> once, and
  sends the next request to the base locator with a \<open>page=n\<close> indicator appended;
  \<open>fetchMore()\<close> is \<open>fetchPage(page + 1)\<close>. The code does this for the first pagination
  only. \<open>fetchPage\<close> builds the next locator from the current \<open>url\<close>, which already
  carries the indicator of the page before, so two paginations leave both indicators in
  the locator, for every configuration and state. On a hook mounted on \<open>/items\<close>:
  \<open>fetchPage(3)\<close> sets \<open>page\<close> to 3, calls \<open>onPageChange(3)\<close> and requests
  \<open>/items?page=3\<close>; \<open>fetchMore()\<close> then sets \<open>page\<close> to 4 and calls \<open>onPageChange(4)\<close>,
  but the request goes to \<open>/items?page=3?page=4\<close> and not to \<open>/items?page=4\<close>. Going
  back with \<open>fetchPage(1)\<close> requests \<open>/items?page=3?page=1\<close>.
\<close>

theorem fetchPage_accumulates_page_indicators:
  "url (fetchPage cfg m (fetchPage cfg n st))
     = url st @ ''?page='' @ show_int n @ ''?page='' @ show_int m
   \<and> (let st1 = fetchPage paging_config 3 (mount paging_config ''/items'');
          st2 = fetchMore paging_config st1
      in page st1 = 3 \<and> pageCalls st1 = [3] \<and> url st1 = ''/items?page=3''
         \<and> requests st1 = [(''/items'', 0, 0), (''/items?page=3'', 1, 0)]
         \<and> page st2 = 4 \<and> pageCalls st2 = [3, 4] \<and> url st2 = ''/items?page=3?page=4''
         \<and> requests st2
             = [(''/items'', 0, 0), (''/items?page=3'', 1, 0), (''/items?page=3?page=4'', 2, 0)]
         \<and> url (fetchPage paging_config 1 st1) = ''/items?page=3?page=1'')
   \<and> show_int 0 = ''0'' \<and> show_int 12 = ''12'' \<and> show_int 305 = ''305''
   \<and> show_int (- 7) = ''-7''"
proof -
  have a: "url (fetchPage cfg m (fetchPage cfg n st))
             = url st @ ''?page='' @ show_int n @ ''?page='' @ show_int m"
    by (simp add: fetchPage_url)
  have b: "(let st1 = fetchPage paging_config 3 (mount paging_config ''/items'');
          st2 = fetchMore paging_config st1
      in page st1 = 3 \<and> pageCalls st1 = [3] \<and> url st1 = ''/items?page=3''
         \<and> requests st1 = [(''/items'', 0, 0), (''/items?page=3'', 1, 0)]
         \<and> page st2 = 4 \<and> pageCalls st2 = [3, 4] \<and> url st2 = ''/items?page=3?page=4''
         \<and> requests st2
             = [(''/items'', 0, 0), (''/items?page=3'', 1, 0), (''/items?page=3?page=4'', 2, 0)]
         \<and> url (fetchPage paging_config 1 st1) = ''/items?page=3?page=1'')"
    by (simp add: paging_config_def hook_defs)
  have c: "show_int 0 = ''0''" "show_int 12 = ''12''" "show_int 305 = ''305''"
    "show_int (- 7) = ''-7''"
    by (simp_all add: show_int_def digits.simps)
  show ?thesis using a b c by blast
qed

end
